theory Spec2Isabelle
  imports Complex_Main "HOL-Library.Sublist" "HOL-Library.Multiset" "HOL-Library.AList"
begin

section \<open>Go library functions used by the service\<close>

text \<open>
  Go strings are byte sequences; they are modelled as \<open>string\<close> (a list of bytes).
  The functions of package \<open>strings\<close> used by the service are written out for the
  separators the source passes, each a single byte.
\<close>

text \<open>
  The ASCII branch of \<open>strings.ToLower\<close>, byte by byte: the letters \<open>A\<close> to \<open>Z\<close>
  (65 to 90) move to \<open>a\<close> to \<open>z\<close>, every other byte stays. \<open>isASCII\<close> is the
  test with which \<open>strings.ToLower\<close> chooses this branch: no byte of the string is
  \<open>utf8.RuneSelf\<close> (128) or more.
\<close>

definition lower_char :: "char \<Rightarrow> char" where
  "lower_char c =
     (let n = (of_char c :: nat) in if 65 \<le> n \<and> n \<le> 90 then char_of (n + 32) else c)"

definition isASCII :: "string \<Rightarrow> bool" where
  "isASCII s = list_all (\<lambda>c. (of_char c :: nat) < 128) s"

text \<open>\<open>strings.Contains(s, substr)\<close>: \<open>substr\<close> occurs in \<open>s\<close> as a contiguous run.\<close>

fun Contains :: "string \<Rightarrow> string \<Rightarrow> bool" where
  "Contains [] substr = (substr = [])"
| "Contains (c # s) substr = (prefix substr (c # s) \<or> Contains s substr)"

text \<open>
  \<open>strings.Split(s, sep)\<close> for a one-byte separator: the pieces between the
  separators, so the result has one more element than \<open>s\<close> has separators and is
  never empty (\<open>Split("", ",")\<close> is the one-element slice holding the empty string).
\<close>

fun Split :: "string \<Rightarrow> char \<Rightarrow> string list" where
  "Split [] sep = [[]]"
| "Split (c # s) sep =
     (if c = sep then [] # Split s sep
      else (case Split s sep of
              [] \<Rightarrow> [[c]]
            | piece # pieces \<Rightarrow> (c # piece) # pieces))"

text \<open>
  \<open>strings.LastIndex(s, sep)\<close> for a one-byte separator: the index of the last
  occurrence, or \<open>-1\<close> when there is none. The helper carries the current index and
  the last index seen so far.
\<close>

fun LastIndex_from :: "int \<Rightarrow> int \<Rightarrow> string \<Rightarrow> char \<Rightarrow> int" where
  "LastIndex_from i found [] sep = found"
| "LastIndex_from i found (c # s) sep =
     LastIndex_from (i + 1) (if c = sep then i else found) s sep"

definition LastIndex :: "string \<Rightarrow> char \<Rightarrow> int" where
  "LastIndex s sep = LastIndex_from 0 (- 1) s sep"

section \<open>Panics, errors and the codec interface\<close>

text \<open>
  A Go function of the service either panics (the run-time aborts) or returns.
  A panic is the left summand of the result; what the function returns is the right one.
\<close>

datatype panic =
    NoCodecsInstalled
  | IndexOutOfRange
  | SliceBoundsOutOfRange
  | NilMapAssignment
  | NilDereference

text \<open>An \<open>error\<close> value made by \<open>errors.New\<close> carries its message.\<close>

datatype error = errors_New string

text \<open>
  The interface \<open>codecs.Codec\<close> is declared in the root package, which is not among
  the sources; the service calls the five methods below. A codec is the record of what
  its methods answer. \<open>'a\<close> is the type of the marshalled objects (\<open>interface{}\<close>),
  options are \<open>map[string]interface{}\<close>, and a method returning \<open>([]byte, error)\<close>
  answers a pair whose error component is \<open>None\<close> for \<open>nil\<close>.
\<close>

type_synonym byte = nat
type_synonym 'a options = "string \<rightharpoonup> 'a"

record 'a Codec =
  ContentType :: string
  FileExtension :: string
  CanMarshalWithCallback :: bool
  Marshal :: "'a \<Rightarrow> 'a options \<Rightarrow> byte list \<times> error option"
  Unmarshal :: "byte list \<Rightarrow> 'a \<Rightarrow> error option"

text \<open>
  What the imported packages supply: the two content-type constants of package
  \<open>constants\<close>, the six codec values of \<open>DefaultCodecs\<close>, \<open>strconv.ParseFloat\<close> at
  32 bits (\<open>None\<close> when it returns an error), for each object whether it implements
  the \<open>Facade\<close> interface and what its \<open>PublicData\<close> method then answers, and the
  Unicode branch of \<open>strings.ToLower\<close>. None of them is among the sources, so they
  are a parameter of the model.
\<close>

datatype float32 = NaN | NegInf | Finite rat | PosInf

record 'a packages =
  ContentTypeJSON :: string
  ContentTypeJSONP :: string
  JsonCodec :: "'a Codec"
  JsonPCodec :: "'a Codec"
  MsgpackCodec :: "'a Codec"
  BsonCodec :: "'a Codec"
  CsvCodec :: "'a Codec"
  SimpleXmlCodec :: "'a Codec"
  ParseFloat :: "string \<Rightarrow> float32 option"
  Facade :: "'a \<Rightarrow> ('a options \<Rightarrow> 'a \<times> error option) option"
  unicode_ToLower :: "string \<Rightarrow> char \<times> string"

text \<open>
  \<open>strings.ToLower\<close> of the Go library: a string of ASCII bytes is lowered byte by
  byte; any other string goes through \<open>strings.Map(unicode.ToLower, s)\<close>, which
  lowers every Unicode letter and rewrites invalid UTF-8. The tables of package
  \<open>unicode\<close> are not among the sources, so that branch is the parameter
  \<open>unicode_ToLower\<close>. It is given as the first byte of the result and the rest: the
  branch is taken on a non-empty string only and every rune of it yields a rune of the
  result, so the result is not empty.
\<close>

definition ToLower :: "'a packages \<Rightarrow> string \<Rightarrow> string" where
  "ToLower env s =
     (if isASCII s then map lower_char s
      else (case unicode_ToLower env s of (c, cs) \<Rightarrow> c # cs))"

section \<open>The service: registry and content-type lookup\<close>

text \<open>
  \<open>WebCodecService\<close> has the single field \<open>codecs\<close>; the service is modelled by that
  slice. \<open>DefaultCodecs\<close>, \<open>NewWebCodecService\<close>, \<open>Codecs\<close>, \<open>AddCodec\<close>,
  \<open>assertCodecs\<close>, \<open>GetCodec\<close>, \<open>MarshalWithCodec\<close> and \<open>UnmarshalWithCodec\<close> read
  the same in both source files.
\<close>

definition DefaultCodecs :: "'a packages \<Rightarrow> 'a Codec list" where
  "DefaultCodecs env =
     [JsonCodec env, JsonPCodec env, MsgpackCodec env, BsonCodec env, CsvCodec env,
      SimpleXmlCodec env]"

definition NewWebCodecService :: "'a packages \<Rightarrow> 'a Codec list" where
  "NewWebCodecService env = DefaultCodecs env"

definition Codecs :: "'a Codec list \<Rightarrow> 'a Codec list" where
  "Codecs s = s"

definition AddCodec :: "'a Codec list \<Rightarrow> 'a Codec \<Rightarrow> 'a Codec list" where
  "AddCodec s codec = s @ [codec]"

definition assertCodecs :: "'a Codec list \<Rightarrow> panic + unit" where
  "assertCodecs s = (if length s = 0 then Inl NoCodecsInstalled else Inr ())"

text \<open>
  The loop of \<open>GetCodec\<close>: the first codec that is the default for an empty content
  type, or whose lower-cased content type occurs in the lower-cased argument.
\<close>

fun GetCodec_loop :: "'a packages \<Rightarrow> 'a Codec list \<Rightarrow> string \<Rightarrow> 'a Codec option" where
  "GetCodec_loop env [] contentType = None"
| "GetCodec_loop env (codec # rest) contentType =
     (if length contentType = 0 \<and> ContentType codec = ContentTypeJSON env then Some codec
      else if Contains (ToLower env contentType) (ToLower env (ContentType codec)) then Some codec
      else GetCodec_loop env rest contentType)"

text \<open>
  \<open>fmt.Sprintf("Content type \"%s\" is not supported.", contentType)\<close>
\<close>

definition not_supported_message :: "string \<Rightarrow> string" where
  "not_supported_message contentType =
     ''Content type '' @ [CHR 0x22] @ contentType @ [CHR 0x22] @ '' is not supported.''"


definition GetCodec ::
  "'a packages \<Rightarrow> 'a Codec list \<Rightarrow> string \<Rightarrow> panic + ('a Codec option \<times> error option)" where
  "GetCodec env s contentType =
     (case assertCodecs s of
        Inl p \<Rightarrow> Inl p
      | Inr _ \<Rightarrow>
          (case GetCodec_loop env s contentType of
             Some codec \<Rightarrow> Inr (Some codec, None)
           | None \<Rightarrow> Inr (None, Some (errors_New (not_supported_message contentType)))))"

section \<open>Accept clauses\<close>

text \<open>
  The sources hold two versions of the package. Where they differ, the plain name is
  the function of \<open>unnamed/part_000\<close>, which has the clause tree, and the suffix
  \<open>_svc\<close> marks the function of \<open>services/web_codec_service.go\<close>.
\<close>

text \<open>
  The parser of the sources does not pass the Go compiler as it stands. It is read as
  the Go it spells: \<open>new(AcceptType)\<close> is a fresh zero struct and the value returned
  is that struct; \<open>root == nil\<close> asks whether a first clause was stored yet;
  \<open>strconv.ParseFloat(priority, 32)\<close> gives a value and an error, and the value is
  taken when the error is nil.
\<close>

text \<open>
  A \<open>float32\<close> is a finite value, an infinity or NaN. Go's comparisons \<open>==\<close>, \<open><\<close> and
  \<open>>\<close> are all false as soon as one side is NaN.
\<close>

fun f32_lt :: "float32 \<Rightarrow> float32 \<Rightarrow> bool" where
  "f32_lt NaN y = False"
| "f32_lt x NaN = False"
| "f32_lt NegInf NegInf = False"
| "f32_lt NegInf y = True"
| "f32_lt (Finite a) (Finite b) = (a < b)"
| "f32_lt (Finite a) PosInf = True"
| "f32_lt (Finite a) NegInf = False"
| "f32_lt PosInf y = False"

definition f32_gt :: "float32 \<Rightarrow> float32 \<Rightarrow> bool" where
  "f32_gt x y = f32_lt y x"

definition f32_eq :: "float32 \<Rightarrow> float32 \<Rightarrow> bool" where
  "f32_eq x y = (x \<noteq> NaN \<and> x = y)"

text \<open>
  A Go \<open>map[string]string\<close>: \<open>None\<close> is the nil map, which can be read (every key is
  absent) but not written: an assignment to an entry of the nil map panics.
\<close>

type_synonym variables = "(string \<times> string) list option"

definition map_assign :: "variables \<Rightarrow> string \<Rightarrow> string \<Rightarrow> panic + variables" where
  "map_assign m k v =
     (case m of None \<Rightarrow> Inl NilMapAssignment | Some al \<Rightarrow> Inr (Some (AList.update k v al)))"

definition map_lookup :: "variables \<Rightarrow> string \<Rightarrow> string option" where
  "map_lookup m k = (case m of None \<Rightarrow> None | Some al \<Rightarrow> map_of al k)"

text \<open>
  The struct \<open>AcceptType\<close> of \<open>unnamed/part_000\<close>. \<open>Left\<close> and \<open>Right\<close> are
  pointers; every node is allocated by \<open>NewAcceptType\<close> and linked into the tree once,
  so no two pointers alias and a pointer is modelled by the node it points to
  (\<open>None\<close> is \<open>nil\<close>). \<open>Size\<close> is a Go \<open>int\<close> that only counts up from 1.
\<close>

datatype AcceptType =
  AcceptType (ContentTypes: "string list") (Variables: variables) (Size: nat)
    (Priority: float32) (Left: "AcceptType option") (Right: "AcceptType option")

text \<open>The zero value of the struct, with which \<open>make\<close> fills a new slice.\<close>

definition zero_AcceptType :: AcceptType where
  "zero_AcceptType = AcceptType [] None 0 (Finite 0) None None"

text \<open>
  The loop over the parameter segments in \<open>NewAcceptType\<close>. Both index expressions
  of the assignment are evaluated before the map is written, so a segment without
  \<open>=\<close> panics on \<open>variableParts[1]\<close>.
\<close>

fun NewAcceptType_variables :: "variables \<Rightarrow> string list \<Rightarrow> panic + variables" where
  "NewAcceptType_variables vars [] = Inr vars"
| "NewAcceptType_variables vars (variable # rest) =
     (let variableParts = Split variable CHR ''='' in
      if length variableParts < 2 then Inl IndexOutOfRange
      else (case map_assign vars (variableParts ! 0) (variableParts ! 1) of
              Inl p \<Rightarrow> Inl p
            | Inr vars' \<Rightarrow> NewAcceptType_variables vars' rest))"

text \<open>
  The body of \<open>NewAcceptType\<close>, which reads the same in both source files but for
  the line \<open>acceptType.Size = 1\<close> of \<open>unnamed/part_000\<close>: it computes the fields
  \<open>ContentTypes\<close>, \<open>Variables\<close> and \<open>Priority\<close>. \<open>new(AcceptType)\<close> is the zero
  struct, so \<open>Variables\<close> starts as the nil map. The source writes the fields
  \<open>priority\<close> and \<open>variables\<close> in lower case in its last lines; they are read as
  \<open>Priority\<close> and \<open>Variables\<close>. \<open>types[0][categoryEnd:]\<close> panics when
  \<open>categoryEnd\<close> is \<open>-1\<close>.
\<close>

definition NewAcceptType_fields ::
  "'a packages \<Rightarrow> string \<Rightarrow> panic + (string list \<times> variables \<times> float32)" where
  "NewAcceptType_fields env accept =
     (let typesAndVariables = Split accept CHR '';'' in
      if length typesAndVariables < 1 then Inl SliceBoundsOutOfRange
      else
        let variables = drop 1 typesAndVariables in
        (case NewAcceptType_variables None variables of
           Inl e \<Rightarrow> Inl e
         | Inr vars \<Rightarrow>
             let typesString = typesAndVariables ! 0;
                 types = Split typesString CHR ''+'' in
             if length types < 1 then Inl IndexOutOfRange
             else
               let categoryEnd = LastIndex (types ! 0) CHR ''/'' in
               if categoryEnd < 0 \<or> int (length (types ! 0)) < categoryEnd
               then Inl SliceBoundsOutOfRange
               else
                 let types' = types[0 := drop (nat categoryEnd) (types ! 0)];
                     priority =
                       (case map_lookup vars ''q'' of
                          None \<Rightarrow> Finite 1
                        | Some priority \<Rightarrow>
                            (case ParseFloat env priority of
                               Some requestedPriority \<Rightarrow> requestedPriority
                             | None \<Rightarrow> Finite 1))
                 in Inr (types', vars, priority)))"

text \<open>\<open>NewAcceptType\<close> of \<open>unnamed/part_000\<close>: a node of size 1 without children.\<close>

definition NewAcceptType :: "'a packages \<Rightarrow> string \<Rightarrow> panic + AcceptType" where
  "NewAcceptType env accept =
     (case NewAcceptType_fields env accept of
        Inl e \<Rightarrow> Inl e
      | Inr (types, vars, priority) \<Rightarrow> Inr (AcceptType types vars 1 priority None None))"

text \<open>
  \<open>Append\<close> changes the receiver in place; the model returns the receiver after the
  call. When none of the three cases of the \<open>switch\<close> holds (a NaN priority), only
  \<open>Size\<close> is incremented.
\<close>

fun Append :: "AcceptType \<Rightarrow> AcceptType \<Rightarrow> AcceptType" where
  "Append (AcceptType cts vars sz p l r) next =
     (if f32_eq p (Priority next) then
        (case l of
           None \<Rightarrow> AcceptType cts vars (sz + 1) p (Some next) r
         | Some lt \<Rightarrow>
             (case r of
                None \<Rightarrow> AcceptType cts vars (sz + 1) p l (Some next)
              | Some rt \<Rightarrow>
                  if Size rt \<le> Size lt
                  then AcceptType cts vars (sz + 1) p l (Some (Append rt next))
                  else AcceptType cts vars (sz + 1) p (Some (Append lt next)) r))
      else if f32_gt (Priority next) p then
        (case l of
           None \<Rightarrow> AcceptType cts vars (sz + 1) p (Some next) r
         | Some lt \<Rightarrow> AcceptType cts vars (sz + 1) p (Some (Append lt next)) r)
      else if f32_lt (Priority next) p then
        (case r of
           None \<Rightarrow> AcceptType cts vars (sz + 1) p l (Some next)
         | Some rt \<Rightarrow> AcceptType cts vars (sz + 1) p l (Some (Append rt next)))
      else AcceptType cts vars (sz + 1) p l r)"

text \<open>
  The two copy loops of \<open>ToSlice\<close>: \<open>typeSlice[start + index] = x\<close> for each element
  of a slice; a write past the end of \<open>typeSlice\<close> panics.
\<close>

fun copy_at :: "AcceptType list \<Rightarrow> nat \<Rightarrow> AcceptType list \<Rightarrow> panic + AcceptType list" where
  "copy_at typeSlice start [] = Inr typeSlice"
| "copy_at typeSlice start (x # xs) =
     (if start < length typeSlice then copy_at (typeSlice[start := x]) (start + 1) xs
      else Inl IndexOutOfRange)"

fun ToSlice :: "AcceptType \<Rightarrow> panic + AcceptType list" where
  "ToSlice (AcceptType cts vars sz p l r) =
     (let typeSlice = replicate sz zero_AcceptType in
      (case (case l of
               None \<Rightarrow> Inr (0, typeSlice)
             | Some lt \<Rightarrow>
                 (case ToSlice lt of
                    Inl e \<Rightarrow> Inl e
                  | Inr leftTypes \<Rightarrow>
                      (case copy_at typeSlice 0 leftTypes of
                         Inl e \<Rightarrow> Inl e
                       | Inr typeSlice' \<Rightarrow> Inr (Size lt, typeSlice')))) of
         Inl e \<Rightarrow> Inl e
       | Inr (leftEnd, typeSlice1) \<Rightarrow>
           if length typeSlice1 \<le> leftEnd then Inl IndexOutOfRange
           else
             let typeSlice2 = typeSlice1[leftEnd := AcceptType cts vars sz p l r] in
             (case r of
                None \<Rightarrow> Inr typeSlice2
              | Some rt \<Rightarrow>
                  (case ToSlice rt of
                     Inl e \<Rightarrow> Inl e
                   | Inr rightTypes \<Rightarrow> copy_at typeSlice2 (leftEnd + 1) rightTypes))))"

text \<open>\<open>FindCodec\<close>: the codecs in registry order, and for each the candidates in order.\<close>

fun FindCodec :: "'a packages \<Rightarrow> AcceptType \<Rightarrow> 'a Codec list \<Rightarrow> 'a Codec option" where
  "FindCodec env acceptType [] = None"
| "FindCodec env acceptType (codec # rest) =
     (if list_ex (\<lambda>typeString. ToLower env typeString = ToLower env (ContentType codec))
           (ContentTypes acceptType)
      then Some codec
      else FindCodec env acceptType rest)"

text \<open>
  \<open>ParseAcceptTypes\<close> of \<open>unnamed/part_000\<close>: the loop over the comma-separated
  pieces, carrying \<open>root\<close> (\<open>None\<close> while it is nil).
\<close>

fun ParseAcceptTypes_loop ::
  "'a packages \<Rightarrow> AcceptType option \<Rightarrow> string list \<Rightarrow> panic + AcceptType option" where
  "ParseAcceptTypes_loop env root' [] = Inr root'"
| "ParseAcceptTypes_loop env root' (acceptStr # rest) =
     (case NewAcceptType env acceptStr of
        Inl e \<Rightarrow> Inl e
      | Inr nextType \<Rightarrow>
          (case root' of
             None \<Rightarrow> ParseAcceptTypes_loop env (Some nextType) rest
           | Some rootType \<Rightarrow> ParseAcceptTypes_loop env (Some (Append rootType nextType)) rest))"

definition ParseAcceptTypes :: "'a packages \<Rightarrow> string \<Rightarrow> panic + AcceptType option" where
  "ParseAcceptTypes env accept = ParseAcceptTypes_loop env None (Split accept CHR '','')"

section \<open>Choosing the codec for a response\<close>

text \<open>The first loop of \<open>GetCodecForResponding\<close>, run when there is a callback.\<close>

fun GetCodecForResponding_jsonp :: "'a packages \<Rightarrow> 'a Codec list \<Rightarrow> 'a Codec option" where
  "GetCodecForResponding_jsonp env [] = None"
| "GetCodecForResponding_jsonp env (codec # rest) =
     (if ContentType codec = ContentTypeJSONP env then Some codec
      else GetCodecForResponding_jsonp env rest)"

text \<open>The loop over the clauses of \<open>ToSlice\<close> in \<open>unnamed/part_000\<close>.\<close>

fun GetCodecForResponding_accept ::
  "'a packages \<Rightarrow> AcceptType list \<Rightarrow> 'a Codec list \<Rightarrow> 'a Codec option" where
  "GetCodecForResponding_accept env [] s = None"
| "GetCodecForResponding_accept env (acceptType # rest) s =
     (case FindCodec env acceptType s of
        Some codec \<Rightarrow> Some codec
      | None \<Rightarrow> GetCodecForResponding_accept env rest s)"

text \<open>The last loop of \<open>unnamed/part_000\<close>: file extension, then callback support.\<close>

fun GetCodecForResponding_extension ::
  "'a packages \<Rightarrow> 'a Codec list \<Rightarrow> string \<Rightarrow> bool \<Rightarrow> 'a Codec option" where
  "GetCodecForResponding_extension env [] extension hasCallback = None"
| "GetCodecForResponding_extension env (codec # rest) extension hasCallback =
     (if ToLower env (FileExtension codec) = ToLower env extension then Some codec
      else if hasCallback \<and> CanMarshalWithCallback codec then Some codec
      else GetCodecForResponding_extension env rest extension hasCallback)"

text \<open>
  \<open>GetCodecForResponding\<close> of \<open>unnamed/part_000\<close>. The Go function returns
  \<open>(codecs.Codec, error)\<close>; the error component \<open>None\<close> is \<open>nil\<close>.
\<close>

definition GetCodecForResponding ::
  "'a packages \<Rightarrow> 'a Codec list \<Rightarrow> string \<Rightarrow> string \<Rightarrow> bool
     \<Rightarrow> panic + ('a Codec option \<times> error option)" where
  "GetCodecForResponding env s accept extension hasCallback =
     (case assertCodecs s of
        Inl e \<Rightarrow> Inl e
      | Inr _ \<Rightarrow>
          (case (if hasCallback then GetCodecForResponding_jsonp env s else None) of
             Some codec \<Rightarrow> Inr (Some codec, None)
           | None \<Rightarrow>
               (case ParseAcceptTypes env accept of
                  Inl e \<Rightarrow> Inl e
                | Inr None \<Rightarrow> Inl NilDereference
                | Inr (Some acceptTypesRoot) \<Rightarrow>
                    (case ToSlice acceptTypesRoot of
                       Inl e \<Rightarrow> Inl e
                     | Inr acceptTypes \<Rightarrow>
                         (case GetCodecForResponding_accept env acceptTypes s of
                            Some codec \<Rightarrow> Inr (Some codec, None)
                          | None \<Rightarrow>
                              (case GetCodecForResponding_extension env s extension hasCallback of
                                 Some codec \<Rightarrow> Inr (Some codec, None)
                               | None \<Rightarrow> Inr (Some (s ! 0), None)))))))"

text \<open>
  The single loop of \<open>GetCodecForResponding\<close> in \<open>services/web_codec_service.go\<close>:
  per codec, the content type as a substring of the header, then the extension, then
  callback support.
\<close>

fun GetCodecForResponding_svc_loop ::
  "'a packages \<Rightarrow> 'a Codec list \<Rightarrow> string \<Rightarrow> string \<Rightarrow> bool \<Rightarrow> 'a Codec option" where
  "GetCodecForResponding_svc_loop env [] accept extension hasCallback = None"
| "GetCodecForResponding_svc_loop env (codec # rest) accept extension hasCallback =
     (if Contains (ToLower env accept) (ToLower env (ContentType codec)) then Some codec
      else if ToLower env (FileExtension codec) = ToLower env extension then Some codec
      else if hasCallback \<and> CanMarshalWithCallback codec then Some codec
      else GetCodecForResponding_svc_loop env rest accept extension hasCallback)"

definition GetCodecForResponding_svc ::
  "'a packages \<Rightarrow> 'a Codec list \<Rightarrow> string \<Rightarrow> string \<Rightarrow> bool
     \<Rightarrow> panic + ('a Codec option \<times> error option)" where
  "GetCodecForResponding_svc env s accept extension hasCallback =
     (case assertCodecs s of
        Inl e \<Rightarrow> Inl e
      | Inr _ \<Rightarrow>
          (case (if hasCallback then GetCodecForResponding_jsonp env s else None) of
             Some codec \<Rightarrow> Inr (Some codec, None)
           | None \<Rightarrow>
               (case GetCodecForResponding_svc_loop env s accept extension hasCallback of
                  Some codec \<Rightarrow> Inr (Some codec, None)
                | None \<Rightarrow> Inr (Some (s ! 0), None))))"

section \<open>The clause map of \<open>services/web_codec_service.go\<close>\<close>

text \<open>
  In \<open>services/web_codec_service.go\<close> the struct \<open>AcceptType\<close> declares \<open>ContentTypes\<close>
  and \<open>Variables\<close>; \<open>NewAcceptType\<close> and \<open>ParseAcceptTypes\<close> also use its
  \<open>Priority\<close>, which is kept as a third field.
\<close>

record AcceptType_svc =
  ContentTypes_svc :: "string list"
  Variables_svc :: variables
  Priority_svc :: float32

definition NewAcceptType_svc :: "'a packages \<Rightarrow> string \<Rightarrow> panic + AcceptType_svc" where
  "NewAcceptType_svc env accept =
     (case NewAcceptType_fields env accept of
        Inl e \<Rightarrow> Inl e
      | Inr (types, vars, priority) \<Rightarrow>
          Inr \<lparr>ContentTypes_svc = types, Variables_svc = vars, Priority_svc = priority\<rparr>)"

text \<open>
  A \<open>map[float32][]AcceptType\<close> as a list of entries; a key is found with \<open>==\<close>, so an
  entry under NaN is never found again and every write under NaN adds an entry. The
  order of the entries means nothing: Go iterates a map in no fixed order.
\<close>

type_synonym priority_map = "(float32 \<times> AcceptType_svc list) list"

fun priority_map_lookup :: "priority_map \<Rightarrow> float32 \<Rightarrow> AcceptType_svc list" where
  "priority_map_lookup [] k = []"
| "priority_map_lookup ((k', v) # m) k = (if f32_eq k' k then v else priority_map_lookup m k)"

fun priority_map_assign ::
  "priority_map \<Rightarrow> float32 \<Rightarrow> AcceptType_svc list \<Rightarrow> priority_map" where
  "priority_map_assign [] k v = [(k, v)]"
| "priority_map_assign ((k', v') # m) k v =
     (if f32_eq k' k then (k', v) # m else (k', v') # priority_map_assign m k v)"

fun ParseAcceptTypes_svc_loop ::
  "'a packages \<Rightarrow> priority_map \<Rightarrow> string list \<Rightarrow> panic + priority_map" where
  "ParseAcceptTypes_svc_loop env types [] = Inr types"
| "ParseAcceptTypes_svc_loop env types (acceptStr # rest) =
     (case NewAcceptType_svc env acceptStr of
        Inl e \<Rightarrow> Inl e
      | Inr acceptType \<Rightarrow>
          ParseAcceptTypes_svc_loop env
            (priority_map_assign types (Priority_svc acceptType)
               (priority_map_lookup types (Priority_svc acceptType) @ [acceptType]))
            rest)"

definition ParseAcceptTypes_svc :: "'a packages \<Rightarrow> string \<Rightarrow> panic + priority_map" where
  "ParseAcceptTypes_svc env accept = ParseAcceptTypes_svc_loop env [] (Split accept CHR '','')"

section \<open>Marshalling through a codec\<close>

text \<open>
  Modelled from the spec: \<open>codecs.PublicData\<close> belongs to the root package of the
  repository, which is not among the sources. The spec (4.5) says: if the object exposes
  the capability of producing a public representation, invoke it with the options and
  use the result, otherwise use the object unchanged; a failure of the extraction is
  propagated.
\<close>

definition PublicData :: "'a packages \<Rightarrow> 'a \<Rightarrow> 'a options \<Rightarrow> 'a \<times> error option" where
  "PublicData env object options =
     (case Facade env object of
        None \<Rightarrow> (object, None)
      | Some publicData \<Rightarrow> publicData options)"

text \<open>
  \<open>MarshalWithCodec\<close> returns what the Go function returns, and beside it the calls
  of \<open>codec.Marshal\<close> it made, each with its arguments. The nil byte slice is \<open>[]\<close>.
\<close>

definition MarshalWithCodec ::
  "'a packages \<Rightarrow> 'a Codec list \<Rightarrow> 'a Codec \<Rightarrow> 'a \<Rightarrow> 'a options
     \<Rightarrow> panic + ((byte list \<times> error option) \<times> ('a \<times> 'a options) list)" where
  "MarshalWithCodec env s codec object options =
     (case assertCodecs s of
        Inl e \<Rightarrow> Inl e
      | Inr _ \<Rightarrow>
          (case PublicData env object options of
             (publicData, Some err) \<Rightarrow> Inr (([], Some err), [])
           | (publicData, None) \<Rightarrow>
               Inr (Marshal codec publicData options, [(publicData, options)])))"

definition UnmarshalWithCodec ::
  "'a Codec list \<Rightarrow> 'a Codec \<Rightarrow> byte list \<Rightarrow> 'a \<Rightarrow> panic + error option" where
  "UnmarshalWithCodec s codec data object =
     (case assertCodecs s of
        Inl e \<Rightarrow> Inl e
      | Inr _ \<Rightarrow> Inr (Unmarshal codec data object))"

section \<open>Specification functions for the clause tree\<close>

text \<open>
  The nodes of a tree from left to right: the left subtree, the node, the right subtree.
  This is the order in which \<open>ToSlice\<close> lays the nodes out.
\<close>

fun inorder :: "AcceptType \<Rightarrow> AcceptType list" where
  "inorder (AcceptType cts vars sz p l r) =
     (case l of None \<Rightarrow> [] | Some lt \<Rightarrow> inorder lt)
     @ [AcceptType cts vars sz p l r]
     @ (case r of None \<Rightarrow> [] | Some rt \<Rightarrow> inorder rt)"

text \<open>
  \<open>Size\<close> is right everywhere in the tree: one more than the sizes of the children.
\<close>

fun well_sized :: "AcceptType \<Rightarrow> bool" where
  "well_sized (AcceptType cts vars sz p l r) =
     (sz = 1 + (case l of None \<Rightarrow> 0 | Some lt \<Rightarrow> Size lt)
             + (case r of None \<Rightarrow> 0 | Some rt \<Rightarrow> Size rt)
      \<and> (case l of None \<Rightarrow> True | Some lt \<Rightarrow> well_sized lt)
      \<and> (case r of None \<Rightarrow> True | Some rt \<Rightarrow> well_sized rt))"

text \<open>What \<open>NewAcceptType\<close> parsed into a node: candidates, parameters, priority.\<close>

definition clause_of :: "AcceptType \<Rightarrow> string list \<times> variables \<times> float32" where
  "clause_of a = (ContentTypes a, Variables a, Priority a)"

text \<open>
  The search-tree order of \<open>Append\<close>: no priority in the left subtree is lower than
  the node's, none in the right subtree is higher.
\<close>

fun ordered :: "AcceptType \<Rightarrow> bool" where
  "ordered (AcceptType cts vars sz p l r) =
     ((case l of None \<Rightarrow> True
       | Some lt \<Rightarrow> ordered lt \<and> list_all (\<lambda>a. \<not> f32_lt (Priority a) p) (inorder lt))
      \<and> (case r of None \<Rightarrow> True
       | Some rt \<Rightarrow> ordered rt \<and> list_all (\<lambda>a. \<not> f32_lt p (Priority a)) (inorder rt)))"

text \<open>No priority in the tree is NaN.\<close>

definition no_NaN :: "AcceptType \<Rightarrow> bool" where
  "no_NaN t = list_all (\<lambda>a. Priority a \<noteq> NaN) (inorder t)"

text \<open>A node as \<open>NewAcceptType\<close> returns it: of size 1, without children.\<close>

definition fresh :: "AcceptType \<Rightarrow> bool" where
  "fresh n = (Size n = 1 \<and> Left n = None \<and> Right n = None)"

text \<open>The three invariants of the tree that \<open>ParseAcceptTypes\<close> builds.\<close>

definition tree_ok :: "AcceptType \<Rightarrow> bool" where
  "tree_ok t = (well_sized t \<and> ordered t \<and> no_NaN t)"

text \<open>
  The test of \<open>FindCodec\<close>: some candidate of the clause equals the codec's content
  type when both are lower-cased.
\<close>

definition candidate_match :: "'a packages \<Rightarrow> AcceptType \<Rightarrow> 'a Codec \<Rightarrow> bool" where
  "candidate_match env acceptType codec =
     list_ex (\<lambda>typeString. ToLower env typeString = ToLower env (ContentType codec))
       (ContentTypes acceptType)"



section \<open>Fixtures for concrete inputs\<close>

text \<open>
  Modelled from the spec: the packages \<open>constants\<close>, \<open>json\<close>, \<open>jsonp\<close>, \<open>msgpack\<close>,
  \<open>bson\<close>, \<open>csv\<close> and \<open>xml\<close> are not among the sources. The examples of the spec
  (section 8) speak of a JSON codec with content type \<open>application/json\<close> and of an XML
  codec with content type \<open>application/xml\<close> that is chosen for the bare extension
  \<open>xml\<close>; the fixtures follow them. Objects are numbers and a codec marshals an
  object to the one byte of its value. Object 0 is a facade whose public data is 1,
  object 2 is a facade whose \<open>PublicData\<close> fails, no other object is a facade.
  \<open>ParseFloat\<close> is given on the two literals of the examples, with the \<open>float32\<close>
  nearest to 0.9.
\<close>

definition example_codec :: "string \<Rightarrow> string \<Rightarrow> bool \<Rightarrow> nat Codec" where
  "example_codec contentType extension callback =
     \<lparr>ContentType = contentType, FileExtension = extension,
      CanMarshalWithCallback = callback,
      Marshal = (\<lambda>object options. ([object], None)),
      Unmarshal = (\<lambda>data object. None)\<rparr>"

definition json_codec :: "nat Codec" where
  "json_codec = example_codec ''application/json'' ''json'' False"

definition jsonp_codec :: "nat Codec" where
  "jsonp_codec = example_codec ''text/javascript'' ''js'' True"

definition msgpack_codec :: "nat Codec" where
  "msgpack_codec = example_codec ''application/x-msgpack'' ''msgpack'' False"

definition bson_codec :: "nat Codec" where
  "bson_codec = example_codec ''application/bson'' ''bson'' False"

definition csv_codec :: "nat Codec" where
  "csv_codec = example_codec ''text/csv'' ''csv'' False"

definition xml_codec :: "nat Codec" where
  "xml_codec = example_codec ''application/xml'' ''xml'' False"

text \<open>A codec that declares no content type; \<open>AddCodec\<close> accepts it like any other.\<close>

definition blank_codec :: "nat Codec" where
  "blank_codec = example_codec [] ''bin'' False"

text \<open>A clause as \<open>NewAcceptType\<close> would make it, with one candidate and a priority.\<close>

definition example_clause :: "string \<Rightarrow> rat \<Rightarrow> AcceptType" where
  "example_clause candidate q = AcceptType [candidate] None 1 (Finite q) None None"

definition example_ParseFloat :: "string \<Rightarrow> float32 option" where
  "example_ParseFloat s =
     (if s = ''0.5'' then Some (Finite (1 / 2))
      else if s = ''0.9'' then Some (Finite (15099494 / 16777216))
      else None)"

definition example_Facade :: "nat \<Rightarrow> (nat options \<Rightarrow> nat \<times> error option) option" where
  "example_Facade object =
     (if object = 0 then Some (\<lambda>options. (1, None))
      else if object = 2 then Some (\<lambda>options. (0, Some (errors_New ''no public data'')))
      else None)"

text \<open>
  The fixtures are ASCII, so the Unicode branch of \<open>strings.ToLower\<close> is never taken
  on them; the stand-in leaves the string as it is.
\<close>

definition example_unicode_ToLower :: "string \<Rightarrow> char \<times> string" where
  "example_unicode_ToLower s = (case s of [] \<Rightarrow> (CHR 0x3F, []) | c # cs \<Rightarrow> (c, cs))"

definition example_packages :: "nat packages" where
  "example_packages =
     \<lparr>ContentTypeJSON = ''application/json'', ContentTypeJSONP = ''text/javascript'',
      JsonCodec = json_codec, JsonPCodec = jsonp_codec, MsgpackCodec = msgpack_codec,
      BsonCodec = bson_codec, CsvCodec = csv_codec, SimpleXmlCodec = xml_codec,
      ParseFloat = example_ParseFloat, Facade = example_Facade,
      unicode_ToLower = example_unicode_ToLower\<rparr>"

section \<open>Properties of the library functions\<close>

text \<open>
  \<open>lower_char\<close> on the bits of a byte: adding 32 to a capital letter sets the bit of
  32. With it the simplifier lowers a byte that is written out.
\<close>

lemma lower_char_bit:
  "lower_char (Char b0 b1 b2 b3 b4 b5 b6 b7) =
     (if 65 \<le> (of_char (Char b0 b1 b2 b3 b4 b5 b6 b7) :: nat)
         \<and> (of_char (Char b0 b1 b2 b3 b4 b5 b6 b7) :: nat) \<le> 90
      then Char b0 b1 b2 b3 b4 True b6 b7 else Char b0 b1 b2 b3 b4 b5 b6 b7)"
  by (induct b0; induct b1; induct b2; induct b3; induct b4; induct b5; induct b6; induct b7;
      code_simp)

text \<open>The definitions unfolded when the model is run on a concrete input.\<close>

lemmas eval_defs =
  GetCodecForResponding_def GetCodecForResponding_svc_def assertCodecs_def
  ParseAcceptTypes_def NewAcceptType_def NewAcceptType_svc_def NewAcceptType_fields_def
  LastIndex_def map_lookup_def map_assign_def Let_def
  ToLower_def isASCII_def lower_char_bit zero_AcceptType_def
  json_codec_def xml_codec_def jsonp_codec_def example_codec_def example_packages_def

lemma Contains_iff_sublist: "Contains s substr \<longleftrightarrow> sublist substr s"
  by (induction s) (auto simp: sublist_Cons_right)

lemma ToLower_Nil [simp]: "ToLower env [] = []"
  by (simp add: ToLower_def isASCII_def)

lemma ToLower_Nil_iff: "ToLower env s = [] \<longleftrightarrow> s = []"
  by (cases s) (auto simp: ToLower_def isASCII_def split: prod.splits)







lemma Split_not_Nil: "Split s sep \<noteq> []"
  by (induction s) (auto split: list.splits)

lemma Split_single_iff: "Split s sep = [x] \<longleftrightarrow> sep \<notin> set s \<and> x = s"
proof (induction s arbitrary: x)
  case Nil
  then show ?case by auto
next
  case (Cons c s)
  show ?case
  proof (cases "c = sep")
    case True
    then show ?thesis by (simp add: Split_not_Nil)
  next
    case False
    then show ?thesis
      using Cons [of "tl x"] Split_not_Nil [of s sep]
      by (cases "Split s sep"; cases x) (auto split: list.splits)
  qed
qed

lemma LastIndex_from_absent: "sep \<notin> set s \<Longrightarrow> LastIndex_from i found s sep = found"
  by (induction s arbitrary: i found) auto

lemma LastIndex_from_bounds:
  "sep \<in> set s \<Longrightarrow>
   i \<le> LastIndex_from i found s sep \<and> LastIndex_from i found s sep < i + int (length s)"
proof (induction s arbitrary: i found)
  case Nil
  then show ?case by simp
next
  case (Cons c s)
  show ?case
  proof (cases "sep \<in> set s")
    case True
    then show ?thesis
      using Cons.IH [OF True, of "i + 1" "if c = sep then i else found"] by simp
  next
    case False
    then show ?thesis using Cons.prems by (simp add: LastIndex_from_absent)
  qed
qed

lemma LastIndex_absent: "sep \<notin> set s \<Longrightarrow> LastIndex s sep = - 1"
  by (simp add: LastIndex_def LastIndex_from_absent)

lemma LastIndex_bounds: "sep \<in> set s \<Longrightarrow> 0 \<le> LastIndex s sep \<and> LastIndex s sep < int (length s)"
  using LastIndex_from_bounds [of sep s 0 "- 1"] by (simp add: LastIndex_def)

section \<open>The clause tree: \<open>Append\<close> and \<open>ToSlice\<close>\<close>

lemma length_inorder: "well_sized t \<Longrightarrow> length (inorder t) = Size t"
  by (induction t rule: inorder.induct) (auto split: option.splits)

lemma copy_at_ok:
  "start + length xs \<le> length ts \<Longrightarrow>
   copy_at ts start xs = Inr (take start ts @ xs @ drop (start + length xs) ts)"
proof (induction xs arbitrary: ts start)
  case Nil
  then show ?case by simp
next
  case (Cons x xs)
  then have "start < length ts" by simp
  moreover have "take (Suc start) (ts[start := x]) = take start ts @ [x]"
    using \<open>start < length ts\<close> by (simp add: take_Suc_conv_app_nth)
  ultimately show ?case using Cons by simp
qed

lemma copy_at_left:
  "copy_at (replicate (length xs + k) z) 0 xs = Inr (xs @ replicate k z)"
  by (simp add: copy_at_ok)

lemma copy_at_right:
  "copy_at (xs @ node # replicate (length ys) z) (length xs + 1) ys = Inr (xs @ node # ys)"
  by (simp add: copy_at_ok)

lemma store_node:
  "(xs @ replicate (Suc k) z)[length xs := node] = xs @ node # replicate k z"
  by (simp add: list_update_append)

lemma ToSlice_well_sized: "well_sized t \<Longrightarrow> ToSlice t = Inr (inorder t)"
proof (induction t rule: inorder.induct)
  case (1 cts vars sz p l r)
  let ?node = "AcceptType cts vars sz p l r"
  define ls where "ls = (case l of None \<Rightarrow> [] | Some lt \<Rightarrow> inorder lt)"
  define rs where "rs = (case r of None \<Rightarrow> [] | Some rt \<Rightarrow> inorder rt)"
  have sz: "sz = length ls + Suc (length rs)"
    using "1.prems" by (auto simp: ls_def rs_def length_inorder split: option.splits)
  have left: "(case l of
               None \<Rightarrow> Inr (0, replicate sz zero_AcceptType)
             | Some lt \<Rightarrow>
                 (case ToSlice lt of
                    Inl e \<Rightarrow> Inl e
                  | Inr leftTypes \<Rightarrow>
                      (case copy_at (replicate sz zero_AcceptType) 0 leftTypes of
                         Inl e \<Rightarrow> Inl e
                       | Inr typeSlice' \<Rightarrow> Inr (Size lt, typeSlice'))))
        = Inr (length ls, ls @ replicate (Suc (length rs)) zero_AcceptType)"
  proof (cases l)
    case None
    then show ?thesis by (simp add: ls_def sz)
  next
    case (Some lt)
    then have "well_sized lt" using "1.prems" by simp
    then have "ToSlice lt = Inr ls" "Size lt = length ls"
      using "1.IH"(1) Some by (simp_all add: ls_def length_inorder)
    moreover have "copy_at (replicate sz zero_AcceptType) 0 ls =
        Inr (ls @ replicate (Suc (length rs)) zero_AcceptType)"
      unfolding sz by (rule copy_at_left)
    ultimately show ?thesis using Some by (simp del: replicate_Suc)
  qed
  have right: "(case r of
                None \<Rightarrow> Inr (ls @ ?node # replicate (length rs) zero_AcceptType)
              | Some rt \<Rightarrow>
                  (case ToSlice rt of
                     Inl e \<Rightarrow> Inl e
                   | Inr rightTypes \<Rightarrow>
                       copy_at (ls @ ?node # replicate (length rs) zero_AcceptType)
                         (length ls + 1) rightTypes))
        = Inr (ls @ ?node # rs)"
  proof (cases r)
    case None
    then show ?thesis by (simp add: rs_def)
  next
    case (Some rt)
    then have "well_sized rt" using "1.prems" by simp
    then have "ToSlice rt = Inr rs"
      using "1.IH"(2) Some by (simp add: rs_def)
    then show ?thesis using Some copy_at_right [of ls ?node rs] by simp
  qed
  have "ToSlice ?node = Inr (ls @ ?node # rs)"
    by (simp only: ToSlice.simps Let_def left sum.case prod.case store_node right)
      (simp add: right)
  then show ?case by (simp add: ls_def rs_def)
qed

lemma f32_trichotomy: "x \<noteq> NaN \<Longrightarrow> y \<noteq> NaN \<Longrightarrow> f32_eq x y \<or> f32_lt x y \<or> f32_lt y x"
  by (cases x; cases y) (auto simp: f32_eq_def)

lemma f32_lt_irrefl: "\<not> f32_lt x x"
  by (cases x) auto

lemma f32_lt_asym: "f32_lt x y \<Longrightarrow> \<not> f32_lt y x"
  by (cases x; cases y) auto

lemma f32_not_lt_trans:
  "y \<noteq> NaN \<Longrightarrow> \<not> f32_lt x y \<Longrightarrow> \<not> f32_lt y z \<Longrightarrow> \<not> f32_lt x z"
  by (cases x; cases y; cases z) auto

lemma f32_eq_not_lt: "f32_eq x y \<Longrightarrow> \<not> f32_lt x y \<and> \<not> f32_lt y x"
  by (auto simp: f32_eq_def f32_lt_irrefl)

lemma Size_Append: "Size (Append t n) = Size t + 1"
  by (cases t) (simp split: option.splits)

lemma inorder_fresh: "fresh n \<Longrightarrow> inorder n = [n]"
  by (cases n) (simp add: fresh_def)

lemma no_NaN_node:
  "no_NaN (AcceptType cts vars sz p l r) \<longleftrightarrow>
     p \<noteq> NaN \<and> (case l of None \<Rightarrow> True | Some lt \<Rightarrow> no_NaN lt)
     \<and> (case r of None \<Rightarrow> True | Some rt \<Rightarrow> no_NaN rt)"
  by (auto simp: no_NaN_def split: option.splits)

lemma well_sized_Append:
  "well_sized t \<Longrightarrow> no_NaN t \<Longrightarrow> fresh n \<Longrightarrow> Priority n \<noteq> NaN \<Longrightarrow> well_sized (Append t n)"
proof (induction t n rule: Append.induct)
  case (1 cts vars sz p l r n)
  have n: "well_sized n" "Size n = 1"
    using "1.prems"(3) by (cases n; simp add: fresh_def)+
  have p: "p \<noteq> NaN" using "1.prems"(2) by (simp add: no_NaN_node)
  from f32_trichotomy [OF p "1.prems"(4)]
  consider (eq) "f32_eq p (Priority n)"
    | (gt) "\<not> f32_eq p (Priority n)" "f32_gt (Priority n) p"
    | (lt) "\<not> f32_eq p (Priority n)" "\<not> f32_gt (Priority n) p" "f32_lt (Priority n) p"
    by (auto simp: f32_gt_def)
  then show ?case
  proof cases
    case eq
    then show ?thesis
      using "1.IH"(1,2) "1.prems" n
      by (auto simp: no_NaN_node Size_Append split: option.splits)
  next
    case gt
    then show ?thesis
      using "1.IH"(3) "1.prems" n
      by (auto simp: no_NaN_node Size_Append split: option.splits)
  next
    case lt
    then show ?thesis
      using "1.IH"(4) "1.prems" n
      by (auto simp: no_NaN_node Size_Append split: option.splits)
  qed
qed

lemma clause_of_node [simp]:
  "clause_of (AcceptType cts vars sz p l r) = (cts, vars, p)"
  by (simp add: clause_of_def)

lemma clauses_Append:
  "no_NaN t \<Longrightarrow> Priority n \<noteq> NaN \<Longrightarrow>
   mset (map clause_of (inorder (Append t n))) =
     mset (map clause_of (inorder t)) + mset (map clause_of (inorder n))"
proof (induction t n rule: Append.induct)
  case (1 cts vars sz p l r n)
  have p: "p \<noteq> NaN" using "1.prems"(1) by (simp add: no_NaN_node)
  from f32_trichotomy [OF p "1.prems"(2)]
  consider (eq) "f32_eq p (Priority n)"
    | (gt) "\<not> f32_eq p (Priority n)" "f32_gt (Priority n) p"
    | (lt) "\<not> f32_eq p (Priority n)" "\<not> f32_gt (Priority n) p" "f32_lt (Priority n) p"
    by (auto simp: f32_gt_def)
  then show ?case
  proof cases
    case eq
    then show ?thesis
      using "1.IH"(1,2) "1.prems"
      by (auto simp: no_NaN_node split: option.splits)
  next
    case gt
    then show ?thesis
      using "1.IH"(3) "1.prems"
      by (auto simp: no_NaN_node split: option.splits)
  next
    case lt
    then show ?thesis
      using "1.IH"(4) "1.prems"
      by (auto simp: no_NaN_node split: option.splits)
  qed
qed

lemma Priority_clause_of: "Priority a = snd (snd (clause_of a))"
  by (simp add: clause_of_def)

lemma priorities_Append:
  assumes "no_NaN t" and "Priority n \<noteq> NaN"
  shows "Priority ` set (inorder (Append t n)) =
     Priority ` set (inorder t) \<union> Priority ` set (inorder n)"
proof -
  have c: "clause_of ` set (inorder (Append t n)) =
      clause_of ` set (inorder t) \<union> clause_of ` set (inorder n)"
    using arg_cong [OF clauses_Append [OF assms], of set_mset] by simp
  have p: "Priority ` A = (\<lambda>c. snd (snd c)) ` clause_of ` A" for A
    by (simp add: image_image clause_of_def)
  show ?thesis
    unfolding p c by (rule image_Un)
qed

lemma no_NaN_iff: "no_NaN u \<longleftrightarrow> NaN \<notin> Priority ` set (inorder u)"
  unfolding no_NaN_def list_all_iff by force

lemma no_NaN_fresh: "fresh n \<Longrightarrow> no_NaN n \<longleftrightarrow> Priority n \<noteq> NaN"
  by (simp add: no_NaN_def inorder_fresh)

lemma no_NaN_Append:
  assumes "no_NaN t" and "fresh n" and "Priority n \<noteq> NaN"
  shows "no_NaN (Append t n)"
  using assms
  by (simp add: no_NaN_iff priorities_Append [OF assms(1,3)] inorder_fresh)

lemma list_all_Priority_Append:
  assumes "no_NaN u" and "fresh n" and "Priority n \<noteq> NaN"
  shows "list_all (\<lambda>a. P (Priority a)) (inorder (Append u n)) \<longleftrightarrow>
     list_all (\<lambda>a. P (Priority a)) (inorder u) \<and> P (Priority n)"
proof -
  have a: "list_all (\<lambda>a. P (Priority a)) xs \<longleftrightarrow> (\<forall>q \<in> Priority ` set xs. P q)" for xs
    unfolding list_all_iff by blast
  show ?thesis
    unfolding a priorities_Append [OF assms(1,3)] inorder_fresh [OF assms(2)] by auto
qed

lemma ordered_Append:
  "ordered t \<Longrightarrow> no_NaN t \<Longrightarrow> fresh n \<Longrightarrow> Priority n \<noteq> NaN \<Longrightarrow> ordered (Append t n)"
proof (induction t n rule: Append.induct)
  case (1 cts vars sz p l r n)
  have p: "p \<noteq> NaN" using "1.prems"(2) by (simp add: no_NaN_node)
  have n: "ordered n" "inorder n = [n]"
    using "1.prems"(3) by (cases n; simp add: fresh_def)+
  note nn = "1.prems"(3,4)
  have below: "list_all (\<lambda>a. \<not> f32_lt (Priority a) p) (inorder (Append u n)) \<longleftrightarrow>
      list_all (\<lambda>a. \<not> f32_lt (Priority a) p) (inorder u) \<and> \<not> f32_lt (Priority n) p"
    if "no_NaN u" for u
    using list_all_Priority_Append [OF that nn, where P = "\<lambda>q. \<not> f32_lt q p"] .
  have above: "list_all (\<lambda>a. \<not> f32_lt p (Priority a)) (inorder (Append u n)) \<longleftrightarrow>
      list_all (\<lambda>a. \<not> f32_lt p (Priority a)) (inorder u) \<and> \<not> f32_lt p (Priority n)"
    if "no_NaN u" for u
    using list_all_Priority_Append [OF that nn, where P = "\<lambda>q. \<not> f32_lt p q"] .
  from f32_trichotomy [OF p "1.prems"(4)]
  consider (eq) "f32_eq p (Priority n)"
    | (gt) "\<not> f32_eq p (Priority n)" "f32_gt (Priority n) p"
    | (lt) "\<not> f32_eq p (Priority n)" "\<not> f32_gt (Priority n) p" "f32_lt (Priority n) p"
    by (auto simp: f32_gt_def)
  then show ?case
  proof cases
    case eq
    then show ?thesis
      using "1.IH"(1,2) "1.prems" n f32_eq_not_lt [OF eq]
      by (cases l; cases r) (simp_all add: no_NaN_node below above)
  next
    case gt
    then show ?thesis
      using "1.IH"(3) "1.prems" n f32_lt_asym [of p "Priority n"]
      by (cases l) (simp_all add: no_NaN_node below above f32_gt_def)
  next
    case lt
    then show ?thesis
      using "1.IH"(4) "1.prems" n f32_lt_asym [of "Priority n" p]
      by (cases r) (simp_all add: no_NaN_node below above)
  qed
qed

lemma sorted_inorder:
  "ordered t \<Longrightarrow> no_NaN t \<Longrightarrow>
   sorted_wrt (\<lambda>a b. \<not> f32_lt (Priority a) (Priority b)) (inorder t)"
proof (induction t rule: inorder.induct)
  case (1 cts vars sz p l r)
  have p: "p \<noteq> NaN" using "1.prems"(2) by (simp add: no_NaN_node)
  show ?case
    using "1.IH" "1.prems" f32_not_lt_trans [OF p]
    by (auto simp: sorted_wrt_append no_NaN_node list_all_iff split: option.splits)
qed

section \<open>The clause parser and the tree of a header\<close>

lemma NewAcceptType_variables_nil:
  "NewAcceptType_variables None variables = Inr vars \<longleftrightarrow> variables = [] \<and> vars = None"
  by (cases variables) (auto simp: Let_def map_assign_def)

lemma NewAcceptType_fields_iff:
  "NewAcceptType_fields env accept = Inr c \<longleftrightarrow>
     CHR '';'' \<notin> set accept \<and> CHR ''/'' \<in> set (hd (Split accept CHR ''+''))
     \<and> c = ((Split accept CHR ''+'')
               [0 := drop (nat (LastIndex (hd (Split accept CHR ''+'')) CHR ''/''))
                       (hd (Split accept CHR ''+''))],
            None, Finite 1)"
proof (cases "CHR '';'' \<in> set accept")
  case True
  then have "drop 1 (Split accept CHR '';'') \<noteq> []"
    using Split_single_iff [of accept "CHR '';''" "hd (Split accept CHR '';'')"]
      Split_not_Nil [of accept "CHR '';''"]
    by (cases "Split accept CHR '';''") auto
  then show ?thesis
    using True Split_not_Nil [of accept "CHR '';''"]
    by (auto simp: NewAcceptType_fields_def Let_def NewAcceptType_variables_nil
        split: sum.splits)
next
  case False
  then have split: "Split accept CHR '';'' = [accept]"
    by (simp add: Split_single_iff)
  have vars: "NewAcceptType_variables None [] = Inr None" by simp
  obtain t ts where ts: "Split accept CHR ''+'' = t # ts"
    using Split_not_Nil [of accept "CHR ''+''"] by (cases "Split accept CHR ''+''") auto
  show ?thesis
  proof (cases "CHR ''/'' \<in> set t")
    case True
    then show ?thesis
      using False LastIndex_bounds [OF True]
      by (auto simp: NewAcceptType_fields_def Let_def split ts map_lookup_def)
  next
    case no: False
    then show ?thesis
      using False
      by (auto simp: NewAcceptType_fields_def Let_def split ts LastIndex_absent)
  qed
qed

lemma NewAcceptType_Inr:
  "NewAcceptType env accept = Inr n \<Longrightarrow>
   fresh n \<and> Priority n = Finite 1 \<and> NewAcceptType_fields env accept = Inr (clause_of n)"
  by (auto simp: NewAcceptType_def fresh_def NewAcceptType_fields_iff split: sum.splits)

lemma tree_ok_fresh: "fresh n \<Longrightarrow> Priority n \<noteq> NaN \<Longrightarrow> tree_ok n"
  by (cases n) (simp add: tree_ok_def fresh_def no_NaN_node)

lemma tree_ok_Append:
  "tree_ok t \<Longrightarrow> fresh n \<Longrightarrow> Priority n \<noteq> NaN \<Longrightarrow> tree_ok (Append t n)"
  by (simp add: tree_ok_def well_sized_Append ordered_Append no_NaN_Append)

lemma ParseAcceptTypes_loop_tree:
  "tree_ok t \<Longrightarrow> ParseAcceptTypes_loop env (Some t) pieces = Inr r \<Longrightarrow>
   \<exists>t' cs. r = Some t' \<and> tree_ok t'
     \<and> map (NewAcceptType_fields env) pieces = map Inr cs
     \<and> mset (map clause_of (inorder t')) = mset (map clause_of (inorder t)) + mset cs"
proof (induction pieces arbitrary: t)
  case Nil
  then have "r = Some t" by simp
  with Nil show ?case by simp
next
  case (Cons acceptStr rest)
  from Cons.prems(2) obtain n where n: "NewAcceptType env acceptStr = Inr n"
    and loop: "ParseAcceptTypes_loop env (Some (Append t n)) rest = Inr r"
    by (auto split: sum.splits)
  from NewAcceptType_Inr [OF n] have fresh: "fresh n" and prio: "Priority n \<noteq> NaN"
    and fields: "NewAcceptType_fields env acceptStr = Inr (clause_of n)"
    by simp_all
  have ok: "tree_ok (Append t n)"
    using Cons.prems(1) fresh prio by (rule tree_ok_Append)
  from Cons.IH [OF ok loop] obtain t' cs where r: "r = Some t'" and t': "tree_ok t'"
    and cs: "map (NewAcceptType_fields env) rest = map Inr cs"
    and m: "mset (map clause_of (inorder t')) = mset (map clause_of (inorder (Append t n))) + mset cs"
    by blast
  have "mset (map clause_of (inorder (Append t n))) =
      mset (map clause_of (inorder t)) + {#clause_of n#}"
    using clauses_Append [OF _ prio, of t] Cons.prems(1)
    by (simp add: tree_ok_def inorder_fresh [OF fresh])
  with m have "mset (map clause_of (inorder t')) =
      mset (map clause_of (inorder t)) + mset (clause_of n # cs)"
    by simp
  moreover have "map (NewAcceptType_fields env) (acceptStr # rest) = map Inr (clause_of n # cs)"
    using fields cs by simp
  ultimately show ?case using r t' by blast
qed

lemma ParseAcceptTypes_tree:
  assumes "ParseAcceptTypes env accept = Inr r"
  shows "\<exists>t cs. r = Some t \<and> tree_ok t
     \<and> map (NewAcceptType_fields env) (Split accept CHR '','') = map Inr cs
     \<and> mset (map clause_of (inorder t)) = mset cs"
proof -
  obtain acceptStr rest where pieces: "Split accept CHR '','' = acceptStr # rest"
    using Split_not_Nil [of accept "CHR '',''"] by (cases "Split accept CHR '',''") auto
  from assms obtain n where n: "NewAcceptType env acceptStr = Inr n"
    and loop: "ParseAcceptTypes_loop env (Some n) rest = Inr r"
    by (auto simp: ParseAcceptTypes_def pieces split: sum.splits)
  from NewAcceptType_Inr [OF n] have fresh: "fresh n" and prio: "Priority n \<noteq> NaN"
    and fields: "NewAcceptType_fields env acceptStr = Inr (clause_of n)"
    by simp_all
  from ParseAcceptTypes_loop_tree [OF tree_ok_fresh [OF fresh prio] loop]
  obtain t cs where r: "r = Some t" and t: "tree_ok t"
    and cs: "map (NewAcceptType_fields env) rest = map Inr cs"
    and m: "mset (map clause_of (inorder t)) = mset (map clause_of (inorder n)) + mset cs"
    by blast
  have "map (NewAcceptType_fields env) (Split accept CHR '','') = map Inr (clause_of n # cs)"
    using fields cs by (simp add: pieces)
  moreover have "mset (map clause_of (inorder t)) = mset (clause_of n # cs)"
    using m by (simp add: inorder_fresh [OF fresh])
  ultimately show ?thesis using r t by blast
qed

lemma NewAcceptType_returns_iff:
  "(\<exists>n. NewAcceptType env accept = Inr n) \<longleftrightarrow>
     CHR '';'' \<notin> set accept \<and> CHR ''/'' \<in> set (hd (Split accept CHR ''+''))"
proof -
  have "(\<exists>n. NewAcceptType env accept = Inr n) \<longleftrightarrow>
      (\<exists>c. NewAcceptType_fields env accept = Inr c)"
    by (cases "NewAcceptType_fields env accept") (auto simp: NewAcceptType_def)
  then show ?thesis
    by (simp add: NewAcceptType_fields_iff)
qed

text \<open>
  C5: the claim is that \<open>NewAcceptType\<close> returns for every clause. It panics on a
  clause without \<open>/\<close> (the slice \<open>types[0][-1:]\<close>), on a parameter segment without
  \<open>=\<close> (the index \<open>variableParts[1]\<close>) and on every well-formed parameter segment
  (the write to the nil map \<open>Variables\<close>), in both source files.
\<close>

theorem NewAcceptType_panics:
  "NewAcceptType example_packages ''json'' = Inl SliceBoundsOutOfRange
   \<and> NewAcceptType example_packages ''text/html;level'' = Inl IndexOutOfRange
   \<and> NewAcceptType example_packages ''text/html;level=1'' = Inl NilMapAssignment
   \<and> NewAcceptType_svc example_packages ''json'' = Inl SliceBoundsOutOfRange
   \<and> NewAcceptType_svc example_packages ''text/html;level'' = Inl IndexOutOfRange
   \<and> NewAcceptType_svc example_packages ''text/html;level=1'' = Inl NilMapAssignment"
  by (simp add: eval_defs)

text \<open>
  C6: the claim is that a clause with a parsable \<open>q\<close> gets that value as its priority.
  On such a clause \<open>NewAcceptType\<close> panics while it stores the parameter, before the
  priority is computed; by \<open>NewAcceptType_Inr\<close> every clause it returns has priority 1.
\<close>

theorem NewAcceptType_q_panics:
  "NewAcceptType example_packages ''application/json;q=0.9'' = Inl NilMapAssignment
   \<and> NewAcceptType_svc example_packages ''application/json;q=0.9'' = Inl NilMapAssignment
   \<and> example_ParseFloat ''0.9'' = Some (Finite (15099494 / 16777216))"
  by (simp add: eval_defs example_ParseFloat_def)

text \<open>
  C4, as the claim states it, fails: \<open>Append\<close> hangs a clause of the root's priority
  to the left of the root when that place is free, so of two clauses of equal priority
  the second comes first in \<open>ToSlice\<close>. The header \<open>a/x,b/y\<close> has the clause with
  candidate \<open>/x\<close> before the one with \<open>/y\<close>, both of priority 1; the slice has them
  the other way round.
\<close>

theorem ParseAcceptTypes_reverses_equal_priorities:
  "map (NewAcceptType_fields example_packages) (Split ''a/x,b/y'' CHR '','') =
     [Inr ([''/x''], None, Finite 1), Inr ([''/y''], None, Finite 1)]
   \<and> ParseAcceptTypes example_packages ''a/x,b/y'' =
     Inr (Some (AcceptType [''/x''] None 2 (Finite 1)
                  (Some (AcceptType [''/y''] None 1 (Finite 1) None None)) None))
   \<and> ToSlice (AcceptType [''/x''] None 2 (Finite 1)
                  (Some (AcceptType [''/y''] None 1 (Finite 1) None None)) None) =
     Inr [AcceptType [''/y''] None 1 (Finite 1) None None,
          AcceptType [''/x''] None 2 (Finite 1)
                  (Some (AcceptType [''/y''] None 1 (Finite 1) None None)) None]"
  by (simp add: eval_defs f32_eq_def numeral_2_eq_2)

text \<open>
  What \<open>Append\<close> and \<open>ToSlice\<close> do keep, for clauses of any priorities but NaN
  appended one after the other: the slice holds each clause once and no clause stands
  before one of higher priority.
\<close>

lemma Append_ToSlice_sorted:
  assumes "fresh n" and "Priority n \<noteq> NaN"
    and "list_all (\<lambda>a. fresh a \<and> Priority a \<noteq> NaN) ns"
  shows "\<exists>xs. ToSlice (foldl Append n ns) = Inr xs
     \<and> mset (map clause_of xs) = mset (map clause_of (n # ns))
     \<and> sorted_wrt (\<lambda>a b. \<not> f32_lt (Priority a) (Priority b)) xs"
proof -
  have "tree_ok t \<Longrightarrow> list_all (\<lambda>a. fresh a \<and> Priority a \<noteq> NaN) ns \<Longrightarrow>
      tree_ok (foldl Append t ns)
      \<and> mset (map clause_of (inorder (foldl Append t ns))) =
          mset (map clause_of (inorder t)) + mset (map clause_of ns)" for t
  proof (induction ns arbitrary: t)
    case Nil
    then show ?case by simp
  next
    case (Cons a ns)
    then have a: "fresh a" "Priority a \<noteq> NaN" by simp_all
    have ok: "tree_ok (Append t a)" using Cons.prems(1) a by (rule tree_ok_Append)
    have "mset (map clause_of (inorder (Append t a))) =
        mset (map clause_of (inorder t)) + {#clause_of a#}"
      using clauses_Append [OF _ a(2), of t] Cons.prems(1)
      by (simp add: tree_ok_def inorder_fresh [OF a(1)])
    then show ?case using Cons.IH [OF ok] Cons.prems(2) by simp
  qed
  from this [OF tree_ok_fresh [OF assms(1,2)] assms(3)]
  have ok: "tree_ok (foldl Append n ns)"
    and m: "mset (map clause_of (inorder (foldl Append n ns))) = mset (map clause_of (n # ns))"
    by (simp_all add: inorder_fresh [OF assms(1)])
  show ?thesis
    using ok m by (auto simp: tree_ok_def ToSlice_well_sized sorted_inorder)
qed

text \<open>
  C4, amended: when \<open>ParseAcceptTypes\<close> returns, every comma-separated piece of the
  header was parsed, \<open>ToSlice\<close> of the tree returns a slice that holds exactly the
  parsed clauses, each as often as the header has it, and in the slice no clause stands
  before a clause of higher priority. The same holds of the tree that \<open>Append\<close>
  builds from any new clauses whose priorities are not NaN. The order among clauses of
  equal priority is left open.
\<close>

theorem ParseAcceptTypes_sorted_by_priority:
  "(ParseAcceptTypes env accept = Inr r \<longrightarrow>
      (\<exists>t xs cs. r = Some t \<and> ToSlice t = Inr xs
         \<and> map (NewAcceptType_fields env) (Split accept CHR '','') = map Inr cs
         \<and> mset (map clause_of xs) = mset cs
         \<and> sorted_wrt (\<lambda>a b. \<not> f32_lt (Priority a) (Priority b)) xs))
   \<and> (fresh n \<and> Priority n \<noteq> NaN \<and> list_all (\<lambda>a. fresh a \<and> Priority a \<noteq> NaN) ns \<longrightarrow>
      (\<exists>xs. ToSlice (foldl Append n ns) = Inr xs
         \<and> mset (map clause_of xs) = mset (map clause_of (n # ns))
         \<and> sorted_wrt (\<lambda>a b. \<not> f32_lt (Priority a) (Priority b)) xs))"
proof (intro conjI impI)
  assume "ParseAcceptTypes env accept = Inr r"
  from ParseAcceptTypes_tree [OF this] obtain t cs where "r = Some t" "tree_ok t"
    "map (NewAcceptType_fields env) (Split accept CHR '','') = map Inr cs"
    "mset (map clause_of (inorder t)) = mset cs"
    by blast
  then show "\<exists>t xs cs. r = Some t \<and> ToSlice t = Inr xs
         \<and> map (NewAcceptType_fields env) (Split accept CHR '','') = map Inr cs
         \<and> mset (map clause_of xs) = mset cs
         \<and> sorted_wrt (\<lambda>a b. \<not> f32_lt (Priority a) (Priority b)) xs"
    by (auto simp: tree_ok_def ToSlice_well_sized sorted_inorder)
next
  assume "fresh n \<and> Priority n \<noteq> NaN \<and> list_all (\<lambda>a. fresh a \<and> Priority a \<noteq> NaN) ns"
  then show "\<exists>xs. ToSlice (foldl Append n ns) = Inr xs
         \<and> mset (map clause_of xs) = mset (map clause_of (n # ns))
         \<and> sorted_wrt (\<lambda>a b. \<not> f32_lt (Priority a) (Priority b)) xs"
    using Append_ToSlice_sorted [of n ns] by blast
qed

theorem ParseAcceptTypes_sorted_by_priority_witness:
  "(\<exists>t xs cs. ParseAcceptTypes example_packages ''a/x,b/y,c/z'' = Inr (Some t)
     \<and> ToSlice t = Inr xs
     \<and> map (NewAcceptType_fields example_packages) (Split ''a/x,b/y,c/z'' CHR '','') = map Inr cs
     \<and> mset (map clause_of xs) = mset cs
     \<and> sorted_wrt (\<lambda>a b. \<not> f32_lt (Priority a) (Priority b)) xs)
   \<and> (\<exists>xs. ToSlice (foldl Append (example_clause ''/xml'' (1 / 2))
                [example_clause ''/json'' (9 / 10), example_clause ''/csv'' (1 / 2),
                 example_clause ''/bson'' 1]) = Inr xs
         \<and> map clause_of xs =
             [([''/bson''], None, Finite 1), ([''/json''], None, Finite (9 / 10)),
              ([''/xml''], None, Finite (1 / 2)), ([''/csv''], None, Finite (1 / 2))]
         \<and> sorted_wrt (\<lambda>a b. \<not> f32_lt (Priority a) (Priority b)) xs)"
proof -
  let ?n = "example_clause ''/xml'' (1 / 2)"
  let ?ns = "[example_clause ''/json'' (9 / 10), example_clause ''/csv'' (1 / 2),
                 example_clause ''/bson'' 1]"
  have r: "ParseAcceptTypes example_packages ''a/x,b/y,c/z'' =
      Inr (Some (AcceptType [''/x''] None 3 (Finite 1)
                  (Some (AcceptType [''/y''] None 1 (Finite 1) None None))
                  (Some (AcceptType [''/z''] None 1 (Finite 1) None None))))"
    by (simp add: eval_defs f32_eq_def)
  have h: "fresh ?n \<and> Priority ?n \<noteq> NaN \<and> list_all (\<lambda>a. fresh a \<and> Priority a \<noteq> NaN) ?ns"
    by (simp add: example_clause_def fresh_def)
  have slice: "map_sum id (map clause_of) (ToSlice (foldl Append ?n ?ns)) =
      Inr [([''/bson''], None, Finite 1), ([''/json''], None, Finite (9 / 10)),
              ([''/xml''], None, Finite (1 / 2)), ([''/csv''], None, Finite (1 / 2))]"
    by (simp add: example_clause_def f32_eq_def f32_gt_def zero_AcceptType_def
        eval_nat_numeral)
  note inst = ParseAcceptTypes_sorted_by_priority
      [of example_packages "''a/x,b/y,c/z''" _ ?n ?ns]
  from conjunct1 [OF inst, THEN mp, OF r] obtain t xs cs
    where t: "Some (AcceptType [''/x''] None 3 (Finite 1)
                  (Some (AcceptType [''/y''] None 1 (Finite 1) None None))
                  (Some (AcceptType [''/z''] None 1 (Finite 1) None None))) = Some t"
      and rest: "ToSlice t = Inr xs"
      "map (NewAcceptType_fields example_packages) (Split ''a/x,b/y,c/z'' CHR '','') = map Inr cs"
      "mset (map clause_of xs) = mset cs"
      "sorted_wrt (\<lambda>a b. \<not> f32_lt (Priority a) (Priority b)) xs"
    by (elim exE conjE)
  have "ParseAcceptTypes example_packages ''a/x,b/y,c/z'' = Inr (Some t)"
    unfolding r t ..
  with rest have part1: "\<exists>t xs cs. ParseAcceptTypes example_packages ''a/x,b/y,c/z'' = Inr (Some t)
     \<and> ToSlice t = Inr xs
     \<and> map (NewAcceptType_fields example_packages) (Split ''a/x,b/y,c/z'' CHR '','') = map Inr cs
     \<and> mset (map clause_of xs) = mset cs
     \<and> sorted_wrt (\<lambda>a b. \<not> f32_lt (Priority a) (Priority b)) xs"
    by (intro exI conjI)
  from conjunct2 [OF inst, THEN mp, OF h] obtain ys
    where ys: "ToSlice (foldl Append ?n ?ns) = Inr ys"
      "sorted_wrt (\<lambda>a b. \<not> f32_lt (Priority a) (Priority b)) ys"
    by (elim exE conjE)
  from slice have "map clause_of ys =
      [([''/bson''], None, Finite 1), ([''/json''], None, Finite (9 / 10)),
       ([''/xml''], None, Finite (1 / 2)), ([''/csv''], None, Finite (1 / 2))]"
    unfolding ys(1) by simp
  with ys have part2: "\<exists>xs. ToSlice (foldl Append ?n ?ns) = Inr xs
         \<and> map clause_of xs =
             [([''/bson''], None, Finite 1), ([''/json''], None, Finite (9 / 10)),
              ([''/xml''], None, Finite (1 / 2)), ([''/csv''], None, Finite (1 / 2))]
         \<and> sorted_wrt (\<lambda>a b. \<not> f32_lt (Priority a) (Priority b)) xs"
    by (intro exI conjI)
  from part1 part2 show ?thesis by (rule conjI)
qed

text \<open>
  \<open>ParseAcceptTypes\<close> of \<open>services/web_codec_service.go\<close>: every clause it can
  parse has priority 1, so the map it returns has the single key 1, and the slice under
  that key lists the clauses in the order of the header. Nothing reads the map.
\<close>

lemma NewAcceptType_svc_Inr:
  "NewAcceptType_svc env accept = Inr a \<Longrightarrow> Priority_svc a = Finite 1"
  by (auto simp: NewAcceptType_svc_def NewAcceptType_fields_iff split: sum.splits)

lemma ParseAcceptTypes_svc_loop_bucket:
  "ParseAcceptTypes_svc_loop env [(Finite 1, before)] pieces = Inr types \<Longrightarrow>
   \<exists>cs. map (NewAcceptType_svc env) pieces = map Inr cs \<and> types = [(Finite 1, before @ cs)]"
proof (induction pieces arbitrary: before)
  case Nil
  then show ?case by auto
next
  case (Cons acceptStr rest)
  from Cons.prems obtain a where a: "NewAcceptType_svc env acceptStr = Inr a"
    and loop: "ParseAcceptTypes_svc_loop env [(Finite 1, before @ [a])] rest = Inr types"
    by (auto simp: f32_eq_def dest: NewAcceptType_svc_Inr split: sum.splits)
  from Cons.IH [OF loop] obtain cs where "map (NewAcceptType_svc env) rest = map Inr cs"
    "types = [(Finite 1, (before @ [a]) @ cs)]"
    by blast
  then have "map (NewAcceptType_svc env) (acceptStr # rest) = map Inr (a # cs)"
    "types = [(Finite 1, before @ a # cs)]"
    using a by simp_all
  then show ?case by blast
qed

lemma ParseAcceptTypes_svc_bucket:
  assumes "ParseAcceptTypes_svc env accept = Inr types"
  shows "\<exists>cs. map (NewAcceptType_svc env) (Split accept CHR '','') = map Inr cs
     \<and> types = [(Finite 1, cs)]"
proof -
  obtain acceptStr rest where pieces: "Split accept CHR '','' = acceptStr # rest"
    using Split_not_Nil [of accept "CHR '',''"] by (cases "Split accept CHR '',''") auto
  from assms obtain a where a: "NewAcceptType_svc env acceptStr = Inr a"
    and loop: "ParseAcceptTypes_svc_loop env [(Finite 1, [a])] rest = Inr types"
    by (auto simp: ParseAcceptTypes_svc_def pieces dest: NewAcceptType_svc_Inr
        split: sum.splits)
  from ParseAcceptTypes_svc_loop_bucket [OF loop] obtain cs
    where "map (NewAcceptType_svc env) rest = map Inr cs" "types = [(Finite 1, [a] @ cs)]"
    by blast
  then have "map (NewAcceptType_svc env) (Split accept CHR '','') = map Inr (a # cs)"
    "types = [(Finite 1, a # cs)]"
    using a by (simp_all add: pieces)
  then show ?thesis by blast
qed

section \<open>Properties of the choice of a codec\<close>

lemma FindCodec_find: "FindCodec env acceptType s = find (candidate_match env acceptType) s"
  by (induction s) (simp_all add: candidate_match_def)

lemma find_Some_member: "find P xs = Some x \<Longrightarrow> x \<in> set xs \<and> P x"
  by (induction xs) (auto split: if_splits)

lemma GetCodecForResponding_accept_None:
  "GetCodecForResponding_accept env acceptTypes s = None \<longleftrightarrow>
     \<not> (\<exists>a \<in> set acceptTypes. \<exists>c \<in> set s. candidate_match env a c)"
  by (induction acceptTypes)
    (auto simp: FindCodec_find find_None_iff dest: find_Some_member split: option.splits)

lemma GetCodecForResponding_accept_Some:
  "GetCodecForResponding_accept env acceptTypes s = Some codec \<Longrightarrow>
     codec \<in> set s \<and> (\<exists>a \<in> set acceptTypes. candidate_match env a codec)"
  by (induction acceptTypes)
    (auto simp: FindCodec_find dest: find_Some_member split: option.splits)

lemma GetCodecForResponding_extension_find:
  "GetCodecForResponding_extension env s extension False =
     find (\<lambda>codec. ToLower env (FileExtension codec) = ToLower env extension) s"
  by (induction s) simp_all

lemma GetCodecForResponding_extension_member:
  "GetCodecForResponding_extension env s extension hasCallback = Some codec \<Longrightarrow> codec \<in> set s"
  by (induction s) (auto split: if_splits)

lemma GetCodecForResponding_jsonp_member:
  "GetCodecForResponding_jsonp env s = Some codec \<Longrightarrow> codec \<in> set s"
  by (induction s) (auto split: if_splits)

lemma GetCodecForResponding_svc_loop_find:
  "GetCodecForResponding_svc_loop env s accept extension False =
     find (\<lambda>codec. sublist (ToLower env (ContentType codec)) (ToLower env accept)
                  \<or> ToLower env (FileExtension codec) = ToLower env extension) s"
  by (induction s) (simp_all add: Contains_iff_sublist)

lemma GetCodecForResponding_svc_loop_member:
  "GetCodecForResponding_svc_loop env s accept extension hasCallback = Some codec \<Longrightarrow> codec \<in> set s"
  by (induction s) (auto split: if_splits)

text \<open>
  \<open>GetCodecForResponding\<close> of \<open>services/web_codec_service.go\<close> always returns a
  registered codec; that of \<open>unnamed/part_000\<close> does so whenever it returns.
\<close>

lemma GetCodecForResponding_svc_total:
  assumes "s \<noteq> []"
  shows "\<exists>codec \<in> set s.
     GetCodecForResponding_svc env s accept extension hasCallback = Inr (Some codec, None)"
proof -
  have "s ! 0 \<in> set s" using assms by simp
  then show ?thesis
    using assms
    by (auto simp: GetCodecForResponding_svc_def assertCodecs_def
        dest: GetCodecForResponding_jsonp_member GetCodecForResponding_svc_loop_member
        split: option.splits)
qed

lemma GetCodecForResponding_returns:
  assumes "GetCodecForResponding env s accept extension hasCallback = Inr result"
  shows "\<exists>codec \<in> set s. result = (Some codec, None)"
proof -
  have ne: "s \<noteq> []"
    using assms by (auto simp: GetCodecForResponding_def assertCodecs_def)
  then have "s ! 0 \<in> set s" by simp
  then show ?thesis
    using assms ne
    by (auto simp: GetCodecForResponding_def assertCodecs_def
        dest: GetCodecForResponding_jsonp_member GetCodecForResponding_extension_member
          GetCodecForResponding_accept_Some
        split: option.splits sum.splits if_splits)
qed

text \<open>
  Without a callback, \<open>GetCodecForResponding\<close> of \<open>unnamed/part_000\<close> panics on
  the empty header whatever the registry and the extension are.
\<close>

lemma GetCodecForResponding_empty_accept:
  "s \<noteq> [] \<Longrightarrow> GetCodecForResponding env s [] extension False = Inl SliceBoundsOutOfRange"
  by (simp add: GetCodecForResponding_def assertCodecs_def ParseAcceptTypes_def
      NewAcceptType_def NewAcceptType_fields_def LastIndex_def)

text \<open>
  C1: the claim is that \<open>GetCodecForResponding\<close> returns a registered codec for every
  input. In \<open>unnamed/part_000\<close> it parses the header first; on the empty header the
  only clause is the empty string, which has no \<open>/\<close>, and \<open>NewAcceptType\<close> panics. So
  a service with the default codecs panics on a request without an Accept header.
\<close>

theorem GetCodecForResponding_panics_on_empty_accept:
  "GetCodecForResponding example_packages (NewWebCodecService example_packages) [] [] False =
     Inl SliceBoundsOutOfRange
   \<and> GetCodecForResponding example_packages [json_codec] [] ''json'' False =
     Inl SliceBoundsOutOfRange"
  by (simp add: eval_defs NewWebCodecService_def DefaultCodecs_def)

text \<open>
  C2: the claim is that the header \<open>application/xml;q=0.5, application/json;q=0.9\<close>
  selects the JSON codec from the registry XML, JSON. The loop of
  \<open>services/web_codec_service.go\<close> never reads \<open>q\<close> and returns the XML codec, the
  first whose content type occurs in the header; \<open>unnamed/part_000\<close> panics while it
  parses the first clause. The candidates it would keep, \<open>/xml\<close> and \<open>/json\<close>, equal
  neither content type.
\<close>

theorem GetCodecForResponding_ignores_q:
  "GetCodecForResponding_svc example_packages [xml_codec, json_codec]
      ''application/xml;q=0.5, application/json;q=0.9'' [] False = Inr (Some xml_codec, None)
   \<and> GetCodecForResponding example_packages [xml_codec, json_codec]
      ''application/xml;q=0.5, application/json;q=0.9'' [] False = Inl NilMapAssignment
   \<and> xml_codec \<noteq> json_codec
   \<and> FindCodec example_packages (AcceptType [''/json''] (Some [(''q'', ''0.9'')]) 1 (Finite (15099494 / 16777216))
        None None) [xml_codec, json_codec] = None"
  by (simp add: eval_defs)

text \<open>
  What the two functions do without a callback. In \<open>unnamed/part_000\<close>, when the
  header parses, the loop over the clauses runs before the loop over the extensions;
  in \<open>services/web_codec_service.go\<close> header and extension are tested codec by codec.
\<close>

lemma GetCodecForResponding_loop_order:
  assumes "s \<noteq> []" and "ParseAcceptTypes env accept = Inr r"
  shows "\<exists>t. r = Some t \<and> ToSlice t = Inr (inorder t)
     \<and> GetCodecForResponding env s accept extension False =
         Inr (Some (case GetCodecForResponding_accept env (inorder t) s of
                      Some codec \<Rightarrow> codec
                    | None \<Rightarrow>
                        (case find (\<lambda>codec. ToLower env (FileExtension codec) =
                                      ToLower env extension) s of
                           Some codec \<Rightarrow> codec
                         | None \<Rightarrow> hd s)), None)"
proof -
  from ParseAcceptTypes_tree [OF assms(2)] obtain t where t: "r = Some t" "tree_ok t"
    by blast
  then have slice: "ToSlice t = Inr (inorder t)"
    by (simp add: tree_ok_def ToSlice_well_sized)
  have hd: "s ! 0 = hd s" using assms(1) by (simp add: hd_conv_nth)
  show ?thesis
    using assms t slice
    by (simp add: GetCodecForResponding_def assertCodecs_def hd
        GetCodecForResponding_extension_find split: option.splits)
qed

lemma GetCodecForResponding_svc_find:
  assumes "s \<noteq> []"
  shows "GetCodecForResponding_svc env s accept extension False =
     Inr (Some (case find (\<lambda>codec. sublist (ToLower env (ContentType codec)) (ToLower env accept)
                                \<or> ToLower env (FileExtension codec) = ToLower env extension) s of
                  Some codec \<Rightarrow> codec
                | None \<Rightarrow> hd s), None)"
proof -
  have hd: "s ! 0 = hd s" using assms by (simp add: hd_conv_nth)
  show ?thesis
    using assms
    by (simp add: GetCodecForResponding_svc_def assertCodecs_def hd
        GetCodecForResponding_svc_loop_find split: option.splits)
qed

text \<open>
  C3: the claim is that a codec whose content type the header accepts is preferred to
  an earlier codec that only has the extension. The header \<open>application/xml\<close> is the
  content type of the XML codec and the extension \<open>json\<close> is that of the JSON codec,
  registered first; both source files return the JSON codec, also on the default
  registry. \<open>services/web_codec_service.go\<close> tests header and extension codec by
  codec, so the earlier codec wins by its extension; \<open>unnamed/part_000\<close>, whose comment
  says to prefer the header, compares the candidate \<open>/xml\<close> with the content type
  \<open>application/xml\<close>, finds no codec for the header and falls to the extension.
\<close>

theorem GetCodecForResponding_extension_beats_accept:
  "GetCodecForResponding_svc example_packages [json_codec, xml_codec]
      ''application/xml'' ''json'' False = Inr (Some json_codec, None)
   \<and> GetCodecForResponding example_packages [json_codec, xml_codec]
      ''application/xml'' ''json'' False = Inr (Some json_codec, None)
   \<and> GetCodecForResponding example_packages (NewWebCodecService example_packages)
      ''application/xml'' ''json'' False = Inr (Some json_codec, None)
   \<and> NewAcceptType example_packages ''application/xml'' =
        Inr (AcceptType [''/xml''] None 1 (Finite 1) None None)
   \<and> ToLower example_packages ''application/xml'' =
        ToLower example_packages (ContentType xml_codec)
   \<and> ToLower example_packages (FileExtension json_codec) = ToLower example_packages ''json''
   \<and> json_codec \<noteq> xml_codec"
  by (simp add: eval_defs f32_eq_def NewWebCodecService_def DefaultCodecs_def
      msgpack_codec_def bson_codec_def csv_codec_def)

section \<open>The registry and the lookup by content type\<close>

text \<open>
  C10: a service made by \<open>NewWebCodecService\<close> holds the six default codecs in the
  order JSON, JSONP, MsgPack, BSON, CSV, XML, so its registry is not empty and
  \<open>assertCodecs\<close>, the first step of every public operation, passes on it.
\<close>

theorem NewWebCodecService_registry:
  "NewWebCodecService env =
     [JsonCodec env, JsonPCodec env, MsgpackCodec env, BsonCodec env, CsvCodec env,
      SimpleXmlCodec env]
   \<and> length (NewWebCodecService env) = 6
   \<and> assertCodecs (NewWebCodecService env) = Inr ()"
  by (simp add: NewWebCodecService_def DefaultCodecs_def assertCodecs_def)


lemma GetCodec_loop_empty:
  "GetCodec_loop env s [] =
     find (\<lambda>codec. ContentType codec = ContentTypeJSON env \<or> ContentType codec = []) s"
  by (induction s) (auto simp: ToLower_Nil_iff)




text \<open>
  C8, as the claim states it, fails: with an empty content type the loop also returns
  a codec whose own content type is empty, because the empty string contains the empty
  string. A registry that holds such a codec before the JSON codec answers with it.
\<close>

theorem GetCodec_empty_blank_codec_first:
  "ContentType json_codec = ContentTypeJSON example_packages
   \<and> json_codec \<in> set [blank_codec, json_codec]
   \<and> GetCodec example_packages [blank_codec, json_codec] [] = Inr (Some blank_codec, None)
   \<and> blank_codec \<noteq> json_codec"
  by (simp add: GetCodec_def assertCodecs_def example_packages_def json_codec_def
      blank_codec_def example_codec_def)

text \<open>
  C8, amended: when the registry holds a codec whose content type is the canonical JSON
  content type, and no codec registered before it has that content type or an empty
  one, \<open>GetCodec\<close> with an empty content type returns that codec, with a nil error.
\<close>

theorem GetCodec_empty_content_type:
  assumes "ContentType codec = ContentTypeJSON env"
    and "\<forall>c \<in> set before. ContentType c \<noteq> ContentTypeJSON env \<and> ContentType c \<noteq> []"
  shows "GetCodec env (before @ codec # after) [] = Inr (Some codec, None)"
proof -
  have "find (\<lambda>c. ContentType c = ContentTypeJSON env \<or> ContentType c = [])
          (before @ codec # after) = Some codec"
    using assms by (induction before) auto
  then show ?thesis
    by (simp add: GetCodec_def assertCodecs_def GetCodec_loop_empty)
qed

theorem GetCodec_empty_content_type_witness:
  "GetCodec example_packages [xml_codec, json_codec, blank_codec] [] =
     Inr (Some json_codec, None)"
  using GetCodec_empty_content_type
      [of json_codec example_packages "[xml_codec]" "[blank_codec]"]
  by (simp add: example_packages_def json_codec_def xml_codec_def example_codec_def)

section \<open>Marshalling\<close>

text \<open>
  C9: on a non-empty registry, \<open>MarshalWithCodec\<close> hands the codec the public data of
  the object when the object is a facade and the object itself otherwise, and returns
  what \<open>codec.Marshal\<close> returns on it, unchanged; when the public data cannot be
  produced it returns that error and \<open>codec.Marshal\<close> is not called at all.
\<close>

theorem MarshalWithCodec_public_data:
  assumes "s \<noteq> []"
  shows "MarshalWithCodec env s codec object options =
     (case Facade env object of
        None \<Rightarrow> Inr (Marshal codec object options, [(object, options)])
      | Some publicData \<Rightarrow>
          (case publicData options of
             (projection, Some err) \<Rightarrow> Inr (([], Some err), [])
           | (projection, None) \<Rightarrow>
               Inr (Marshal codec projection options, [(projection, options)])))"
  using assms
  by (simp add: MarshalWithCodec_def assertCodecs_def PublicData_def
      split: option.splits prod.splits)

theorem MarshalWithCodec_public_data_witness:
  "MarshalWithCodec example_packages [json_codec] json_codec 0 Map.empty =
     Inr (([1], None), [(1, Map.empty)])
   \<and> MarshalWithCodec example_packages [json_codec] json_codec 2 Map.empty =
     Inr (([], Some (errors_New ''no public data'')), [])
   \<and> MarshalWithCodec example_packages [json_codec] json_codec 5 Map.empty =
     Inr (([5], None), [(5, Map.empty)])"
  using MarshalWithCodec_public_data [of "[json_codec]" example_packages json_codec 0 Map.empty]
    MarshalWithCodec_public_data [of "[json_codec]" example_packages json_codec 2 Map.empty]
    MarshalWithCodec_public_data [of "[json_codec]" example_packages json_codec 5 Map.empty]
  by (simp add: example_packages_def example_Facade_def json_codec_def example_codec_def)

end
